theory Spec2Isabelle
  imports Main
begin

section \<open>The patch annotator of proposalDetails.tsx\<close>

text \<open>
  The function \<open>parsePatch\<close> of \<^verbatim>\<open>src/component/collaboration/proposalDetails.tsx\<close>
  turns the text of a unified diff into at most ten change records.

  JavaScript strings are modelled as \<^typ>\<open>string\<close>. The function inspects characters
  only by comparing them with the ASCII characters \<open>@\<close>, \<open>+\<close>, \<open>-\<close>, the backslash, the
  comma, the blank, the line feed and the decimal digits, so the encoding of every other
  character does not matter to it.

  A JavaScript number is an IEEE 754 double. The numbers of this function are
  integers, infinities or \<open>NaN\<close>: \<open>Num n\<close> stands for the double whose value is the
  integer \<open>n\<close>, and \<open>to_double\<close> rounds an integer to the nearest double, ties to the
  even significand, as the host does after every arithmetic operation. Every integer
  up to \<open>2 ^ 53\<close> in magnitude is a double; beyond \<open>2 ^ 53\<close> only multiples of a power
  of two are, and from \<open>2 ^ 1024 - 2 ^ 970\<close> on the rounding gives an infinity. The
  two zeros are not distinguished.
\<close>

subsection \<open>Numbers and strings of the host language\<close>

datatype number = NaN | Num int | PosInf | NegInf

fun bit_length :: "int \<Rightarrow> nat" where
  \<comment> \<open>the number of binary digits of a positive integer\<close>
  "bit_length n = (if n \<le> 0 then 0 else Suc (bit_length (n div 2)))"

declare bit_length.simps [simp del]

definition to_double :: "int \<Rightarrow> number" where
  \<comment> \<open>the double nearest to an integer: beyond 53 bits the low \<open>e\<close> bits are rounded
      away, to the nearest and on a tie to the even significand; a result of more than
      1024 bits is out of range\<close>
  "to_double n =
     (let a = \<bar>n\<bar>
      in if a \<le> 2 ^ 53 then Num n
         else (let e = bit_length a - 53;
                   q = a div 2 ^ e;
                   r = a mod 2 ^ e;
                   q' = (if 2 ^ e < 2 * r \<or> 2 * r = 2 ^ e \<and> odd q then q + 1 else q);
                   v = q' * 2 ^ e
               in if 1024 < bit_length v then (if n < 0 then NegInf else PosInf)
                  else Num (if n < 0 then - v else v)))"

fun incr :: "number \<Rightarrow> number" where
  \<comment> \<open>\<open>x++\<close>: the sum \<open>x + 1\<close>, rounded\<close>
  "incr NaN = NaN"
| "incr (Num n) = to_double (n + 1)"
| "incr PosInf = PosInf"
| "incr NegInf = NegInf"

definition startsWith :: "string \<Rightarrow> string \<Rightarrow> bool" where
  \<comment> \<open>\<open>s.startsWith(p)\<close>\<close>
  "startsWith s p = (take (length p) s = p)"

fun split :: "char \<Rightarrow> string \<Rightarrow> string list" where
  \<comment> \<open>\<open>s.split(d)\<close> for a one-character separator: the empty string gives one empty piece\<close>
  "split d [] = [[]]"
| "split d (c # cs) =
     (if c = d then [] # split d cs
      else (case split d cs of [] \<Rightarrow> [[c]] | l # ls \<Rightarrow> (c # l) # ls))"

definition is_digit :: "char \<Rightarrow> bool" where
  \<comment> \<open>the class \<open>\d\<close>, and the digits of radix 10\<close>
  "is_digit c = (c \<in> set ''0123456789'')"

definition is_hex :: "char \<Rightarrow> bool" where
  "is_hex c = (c \<in> set ''0123456789abcdefABCDEF'')"

definition is_space :: "char \<Rightarrow> bool" where
  \<comment> \<open>the white space and line terminators below U+0100 that \<open>parseInt\<close> skips (tab,
      line feed, vertical tab, form feed, carriage return, blank, no-break space)\<close>
  "is_space c =
     (c \<in> set [CHR 0x09, CHR 0x0A, CHR 0x0B, CHR 0x0C, CHR 0x0D, CHR 0x20, CHR 0xA0])"

definition digit_val :: "char \<Rightarrow> int" where
  "digit_val c =
     (if is_digit c then int (of_char c) - 48
      else if c \<in> set ''abcdef'' then int (of_char c) - 87
      else int (of_char c) - 55)"

definition radix_val :: "int \<Rightarrow> string \<Rightarrow> int" where
  "radix_val b ds = foldl (\<lambda>a c. b * a + digit_val c) 0 ds"

definition parseInt :: "string \<Rightarrow> number" where
  \<comment> \<open>\<open>parseInt(s)\<close> with no radix argument: leading white space, a sign, a
      \<open>0x\<close> prefix for radix 16, then the longest run of digits; \<open>NaN\<close> without one,
      else the double nearest to their value (beyond 20 decimal digits the standard
      lets an implementation read the later digits as zeros; the model keeps them)\<close>
  "parseInt s =
     (let t = dropWhile is_space s;
          sgn = (if startsWith t ''-'' then - 1 else 1);
          u = (if startsWith t ''-'' \<or> startsWith t ''+'' then tl t else t)
      in if startsWith u ''0x'' \<or> startsWith u ''0X''
         then (let ds = takeWhile is_hex (drop 2 u)
               in if ds = [] then NaN else to_double (sgn * radix_val 16 ds))
         else (let ds = takeWhile is_digit u
               in if ds = [] then NaN else to_double (sgn * radix_val 10 ds)))"

subsection \<open>Regular expressions with backtracking\<close>

text \<open>
  The fragment of the regular expressions of the host language that the source uses:
  literal text, the class \<open>\d\<close>, concatenation, the greedy quantifiers \<open>?\<close>, \<open>*\<close> and
  \<open>+\<close>, and numbered capture groups. \<open>matches r s c\<close> lists, in the order in which
  backtracking tries them, every way in which \<open>r\<close> matches a prefix of \<open>s\<close>: the rest
  of the input and the captures after it. A greedy quantifier tries one more
  repetition before it tries to stop, and a repetition that consumes nothing is
  rejected.
\<close>

datatype re =
    Lit string
  | Digit
  | Cat re re
  | Opt re
  | Star re
  | Plus re
  | Grp nat re

type_synonym captures = "nat \<rightharpoonup> string"

fun weight :: "re \<Rightarrow> nat" where
  \<comment> \<open>a size in which \<open>r+\<close> is larger than \<open>r*\<close>\<close>
  "weight (Lit w) = 0"
| "weight Digit = 0"
| "weight (Cat r1 r2) = weight r1 + weight r2 + 1"
| "weight (Opt r) = weight r + 1"
| "weight (Star r) = weight r + 1"
| "weight (Plus r) = weight r + 2"
| "weight (Grp i r) = weight r + 1"

function matches :: "re \<Rightarrow> string \<Rightarrow> captures \<Rightarrow> (string \<times> captures) list" where
  "matches (Lit w) s c = (if startsWith s w then [(drop (length w) s, c)] else [])"
| "matches Digit s c = (case s of [] \<Rightarrow> [] | x # xs \<Rightarrow> if is_digit x then [(xs, c)] else [])"
| "matches (Cat r1 r2) s c = concat (map (\<lambda>p. matches r2 (fst p) (snd p)) (matches r1 s c))"
| "matches (Opt r) s c = matches r s c @ [(s, c)]"
| "matches (Star r) s c =
     concat (map (\<lambda>p. matches (Star r) (fst p) (snd p))
                 (filter (\<lambda>p. length (fst p) < length s) (matches r s c))) @ [(s, c)]"
| "matches (Plus r) s c =
     concat (map (\<lambda>p. matches (Star r) (fst p) (snd p)) (matches r s c))"
| "matches (Grp i r) s c =
     map (\<lambda>p. (fst p, (snd p)(i \<mapsto> take (length s - length (fst p)) s))) (matches r s c)"
  by pat_completeness auto
termination
  by (relation "measures [\<lambda>(r, s, c). weight r, \<lambda>(r, s, c). length s]") auto

declare matches.simps(5) [simp del]

fun search :: "re \<Rightarrow> string \<Rightarrow> captures option" where
  \<comment> \<open>\<open>s.match(r)\<close> for \<open>r\<close> without the global flag: the first match at the leftmost
      position that has one, or \<open>null\<close>\<close>
  "search r s =
     (case matches r s Map.empty of
        p # _ \<Rightarrow> Some (snd p)
      | [] \<Rightarrow> (case s of [] \<Rightarrow> None | _ # xs \<Rightarrow> search r xs))"

definition captured :: "captures \<Rightarrow> nat \<Rightarrow> string" where
  \<comment> \<open>\<open>match[i]\<close> as \<open>parseInt\<close> reads it: a group that took no part is \<open>undefined\<close>\<close>
  "captured c i = (case c i of None \<Rightarrow> ''undefined'' | Some v \<Rightarrow> v)"

definition hunk_re :: re where
  \<comment> \<open>\<^verbatim>\<open>/@@ -(\d+),?\d* \+(\d+),?\d* @@/\<close>\<close>
  "hunk_re =
     Cat (Lit ''@@ -'') (Cat (Grp 1 (Plus Digit)) (Cat (Opt (Lit '','')) (Cat (Star Digit)
     (Cat (Lit '' +'') (Cat (Grp 2 (Plus Digit)) (Cat (Opt (Lit '','')) (Cat (Star Digit)
     (Lit '' @@''))))))))"

subsection \<open>parsePatch\<close>

datatype change_type = addition | deletion

record change =
  type :: change_type
  line :: number
  content :: string

type_synonym state = "number \<times> change list"

definition step :: "state \<Rightarrow> string \<Rightarrow> state" where
  \<comment> \<open>the body of the loop, on \<open>(currentLine, changes)\<close>\<close>
  "step st l =
     (let currentLine = fst st; changes = snd st
      in if startsWith l ''@@'' then
           (case search hunk_re l of
              Some match \<Rightarrow> (parseInt (captured match 2), changes)
            | None \<Rightarrow> (currentLine, changes))
         else if startsWith l ''+'' \<and> \<not> startsWith l ''+++'' then
           (incr currentLine,
            changes @ [\<lparr>type = addition, line = currentLine, content = l\<rparr>])
         else if startsWith l ''-'' \<and> \<not> startsWith l ''---'' then
           (currentLine,
            changes @ [\<lparr>type = deletion, line = currentLine, content = l\<rparr>])
         else if \<not> startsWith l [CHR 0x5C] then (incr currentLine, changes)
         else (currentLine, changes))"

definition scan :: "string \<Rightarrow> state" where
  \<comment> \<open>the state after the loop over \<open>patch.split('\n')\<close>\<close>
  "scan patch = foldl step (Num 0, []) (split (CHR 0x0A) patch)"

definition parsePatch :: "string \<Rightarrow> change list" where
  "parsePatch patch = take 10 (snd (scan patch))"

subsection \<open>Runs of parsePatch, with exceptions\<close>

text \<open>
  The same function as a big-step relation between the input and the outcome of a run,
  which is a result or an exception. A run that does not end has no outcome. The one
  operation of the body that can throw is the read of \<open>match[2]\<close>: reading a property
  of \<open>null\<close> is a \<open>TypeError\<close>. The rules follow the statements of the source: the
  test \<open>if (match)\<close> guards the read, an exception in the body ends the loop, and
  the result is cut to ten records after the loop.
\<close>

datatype error = TypeError

fun get_group :: "captures option \<Rightarrow> nat \<Rightarrow> error + string" where
  \<comment> \<open>\<open>match[i]\<close>, where \<open>match\<close> may be \<open>null\<close>\<close>
  "get_group None i = Inl TypeError"
| "get_group (Some c) i = Inr (captured c i)"





subsection \<open>Vocabulary of the properties\<close>

text \<open>
  A line is recorded when it starts with \<open>+\<close> but not with \<open>+++\<close>, or with \<open>-\<close> but
  not with \<open>---\<close>; \<open>kind\<close> is the type of the record it gets.
\<close>

definition qualifying :: "string \<Rightarrow> bool" where
  "qualifying l \<longleftrightarrow>
     startsWith l ''+'' \<and> \<not> startsWith l ''+++'' \<or>
     startsWith l ''-'' \<and> \<not> startsWith l ''---''"

definition kind :: "string \<Rightarrow> change_type" where
  "kind l = (if startsWith l ''+'' then addition else deletion)"

text \<open>
  The hunk header form \<^verbatim>\<open>@@ -<oldStart>[,<oldLen>] +<newStart>[,<newLen>] @@\<close>: the
  starts are non-empty runs of digits, a length is absent or a comma and a run of
  digits, and anything may follow the closing \<open>@@\<close>.
\<close>

definition digits :: "string \<Rightarrow> bool" where
  "digits ds \<longleftrightarrow> ds \<noteq> [] \<and> (\<forall>x \<in> set ds. is_digit x)"

fun opt_len :: "string \<Rightarrow> bool" where
  \<comment> \<open>nothing, or a comma and a run of digits\<close>
  "opt_len [] = True"
| "opt_len (x # ds) = (x = CHR '','' \<and> (\<forall>y \<in> set ds. is_digit y))"

definition header :: "string \<Rightarrow> string \<Rightarrow> string \<Rightarrow> string \<Rightarrow> string \<Rightarrow> string" where
  "header oldStart oldLen newStart newLen rest =
     ''@@ -'' @ oldStart @ oldLen @ '' +'' @ newStart @ newLen @ '' @@'' @ rest"

definition no_digit_first :: "string \<Rightarrow> bool" where
  "no_digit_first s \<longleftrightarrow> (case s of [] \<Rightarrow> True | x # _ \<Rightarrow> \<not> is_digit x)"


definition ordered_state :: "state \<Rightarrow> bool" where
  "ordered_state st \<longleftrightarrow>
     (\<exists>n ns. fst st = Num n \<and> n \<le> 2 ^ 53 \<and> map line (snd st) = map Num ns \<and>
             sorted (ns @ [n]) \<and> (\<forall>k \<in> set (ns @ [n]). 0 \<le> k))"

section \<open>Lemmas\<close>

subsection \<open>Prefixes, lines and single steps\<close>

lemma startsWith_Cons:
  "startsWith s (x # p) \<longleftrightarrow> (\<exists>t. s = x # t \<and> startsWith t p)"
  by (cases s) (auto simp: startsWith_def)

lemma startsWith_Nil [simp]: "startsWith s []"
  by (simp add: startsWith_def)

lemma plus_not_at: "startsWith l ''+'' \<Longrightarrow> \<not> startsWith l ''@@''"
  by (auto simp: startsWith_Cons)

lemma minus_not_at: "startsWith l ''-'' \<Longrightarrow> \<not> startsWith l ''@@''"
  by (auto simp: startsWith_Cons)

lemma minus_not_plus: "startsWith l ''-'' \<Longrightarrow> \<not> startsWith l ''+''"
  by (auto simp: startsWith_Cons)

lemma step_addition:
  "startsWith l ''+'' \<Longrightarrow> \<not> startsWith l ''+++'' \<Longrightarrow>
   step (cur, chs) l = (incr cur, chs @ [\<lparr>type = addition, line = cur, content = l\<rparr>])"
  by (simp add: step_def plus_not_at)

lemma step_deletion:
  "startsWith l ''-'' \<Longrightarrow> \<not> startsWith l ''---'' \<Longrightarrow>
   step (cur, chs) l = (cur, chs @ [\<lparr>type = deletion, line = cur, content = l\<rparr>])"
  by (simp add: step_def minus_not_at minus_not_plus)

lemma step_other:
  "\<not> startsWith l ''@@'' \<Longrightarrow> \<not> qualifying l \<Longrightarrow>
   step (cur, chs) l = (if startsWith l [CHR 0x5C] then cur else incr cur, chs)"
  by (auto simp: step_def qualifying_def)

lemma step_header:
  "startsWith l ''@@'' \<Longrightarrow>
   step (cur, chs) l =
     (case search hunk_re l of Some match \<Rightarrow> parseInt (captured match 2) | None \<Rightarrow> cur, chs)"
  by (simp add: step_def split: option.splits)

lemma snd_step:
  "snd (step (cur, chs) l) =
     (if startsWith l ''+'' \<and> \<not> startsWith l ''+++''
      then chs @ [\<lparr>type = addition, line = cur, content = l\<rparr>]
      else if startsWith l ''-'' \<and> \<not> startsWith l ''---''
      then chs @ [\<lparr>type = deletion, line = cur, content = l\<rparr>]
      else chs)"
  by (auto simp: step_def plus_not_at minus_not_at split: option.splits)

subsection \<open>Rounding and the increment\<close>

lemma to_double_exact: "\<bar>n\<bar> \<le> 2 ^ 53 \<Longrightarrow> to_double n = Num n"
  by (simp add: to_double_def)



lemma incr_exact: "0 \<le> n \<Longrightarrow> n < 2 ^ 53 \<Longrightarrow> incr (Num n) = Num (n + 1)"
  by (simp add: to_double_exact)

lemma incr_top: "incr (Num (2 ^ 53)) = Num (2 ^ 53)"
  by code_simp

lemma incr_bounded:
  assumes "0 \<le> n" "n \<le> 2 ^ 53"
  shows "\<exists>k. incr (Num n) = Num k \<and> n \<le> k \<and> k \<le> 2 ^ 53"
proof (cases "n = 2 ^ 53")
  case True
  with incr_top show ?thesis by simp
next
  case False
  with assms have "n < 2 ^ 53" by simp
  from incr_exact [OF assms(1) this] this show ?thesis by simp
qed

subsection \<open>Digits and parseInt\<close>

lemma digit_not_space: "is_digit x \<Longrightarrow> \<not> is_space x"
  by (auto simp: is_digit_def is_space_def)

lemma digit_val_range: "is_digit x \<Longrightarrow> 0 \<le> digit_val x \<and> digit_val x \<le> 9"
  by (auto simp: is_digit_def digit_val_def)

lemma foldl_radix_nonneg:
  "0 \<le> a \<Longrightarrow> \<forall>x \<in> set ds. is_digit x \<Longrightarrow> 0 \<le> foldl (\<lambda>a c. 10 * a + digit_val c) a ds"
proof (induction ds arbitrary: a)
  case Nil
  then show ?case by simp
next
  case (Cons d ds)
  then have "0 \<le> 10 * a + digit_val d"
    using digit_val_range [of d] by simp
  with Cons show ?case by simp
qed

lemma radix_val_nonneg: "\<forall>x \<in> set ds. is_digit x \<Longrightarrow> 0 \<le> radix_val 10 ds"
  unfolding radix_val_def by (rule foldl_radix_nonneg) simp_all

lemma startsWith_Cons_Cons:
  "startsWith (x # xs) (y # ys) \<longleftrightarrow> x = y \<and> startsWith xs ys"
  by (simp add: startsWith_def)

lemma startsWith_Nil_Cons [simp]: "\<not> startsWith [] (y # ys)"
  by (simp add: startsWith_def)

lemma digit_not_sign: "is_digit x \<Longrightarrow> x \<noteq> CHR ''-'' \<and> x \<noteq> CHR ''+''"
  by (auto simp: is_digit_def)

lemma digit_not_x: "is_digit x \<Longrightarrow> x \<noteq> CHR ''x'' \<and> x \<noteq> CHR ''X''"
  by (auto simp: is_digit_def)

lemma digits_not_hex:
  assumes "\<forall>y \<in> set xs. is_digit y"
  shows "\<not> startsWith (x # xs) ''0x'' \<and> \<not> startsWith (x # xs) ''0X''"
proof (cases xs)
  case Nil
  then show ?thesis by (simp add: startsWith_Cons_Cons)
next
  case (Cons y ys)
  with assms have "is_digit y" by simp
  from digit_not_x [OF this] Cons show ?thesis by (simp add: startsWith_Cons_Cons)
qed

lemma parseInt_digits:
  assumes "digits ds"
  shows "parseInt ds = to_double (radix_val 10 ds)"
proof -
  from assms obtain x xs where ds: "ds = x # xs" and x: "is_digit x" and xs: "\<forall>y \<in> set xs. is_digit y"
    by (cases ds) (auto simp: digits_def)
  have nosign: "\<not> startsWith (x # xs) ''-''" "\<not> startsWith (x # xs) ''+''"
    using digit_not_sign [OF x] by (simp_all add: startsWith_Cons_Cons)
  have nohex: "\<not> startsWith (x # xs) ''0x''" "\<not> startsWith (x # xs) ''0X''"
    using digits_not_hex [OF xs] by simp_all
  have all: "takeWhile is_digit xs = xs"
    using xs by simp
  have "parseInt (x # xs) = to_double (radix_val 10 (x # xs))"
    using nosign nohex x by (simp add: parseInt_def digit_not_space all)
  then show ?thesis by (simp add: ds)
qed

subsection \<open>What a match of the header pattern captures\<close>

lemma matches_Star_Digit_Nil [simp]: "matches (Star Digit) [] c = [([], c)]"
  by (subst matches.simps(5)) simp

lemma matches_Star_Digit_Cons:
  "matches (Star Digit) (x # xs) c =
     (if is_digit x then matches (Star Digit) xs c @ [(x # xs, c)] else [(x # xs, c)])"
  by (subst matches.simps(5)) simp

lemma matches_Plus_Digit_Cons:
  "matches (Plus Digit) (x # xs) c = (if is_digit x then matches (Star Digit) xs c else [])"
  by simp

lemma matches_Plus_Digit_Nil [simp]: "matches (Plus Digit) [] c = []"
  by simp











subsection \<open>The first match on a well-formed header\<close>

lemma first_match_Star_Digit:
  "\<forall>x \<in> set ds. is_digit x \<Longrightarrow> no_digit_first rest \<Longrightarrow>
   \<exists>t. matches (Star Digit) (ds @ rest) c = (rest, c) # t"
proof (induction ds)
  case Nil
  then show ?case
    by (cases rest) (auto simp: no_digit_first_def matches_Star_Digit_Cons)
next
  case (Cons d ds)
  then show ?case by (auto simp: matches_Star_Digit_Cons)
qed

lemma first_match_Plus_Digit:
  assumes "digits ds" "no_digit_first rest"
  shows "\<exists>t. matches (Plus Digit) (ds @ rest) c = (rest, c) # t"
proof -
  from assms(1) obtain x xs where ds: "ds = x # xs" and x: "is_digit x" and xs: "\<forall>y \<in> set xs. is_digit y"
    by (cases ds) (auto simp: digits_def)
  from first_match_Star_Digit [OF xs assms(2)] x show ?thesis
    by (simp add: ds matches_Plus_Digit_Cons)
qed

lemma first_match_Grp_Plus_Digit:
  assumes "digits ds" "no_digit_first rest"
  shows "\<exists>t. matches (Grp i (Plus Digit)) (ds @ rest) c = (rest, c(i \<mapsto> ds)) # t"
proof -
  from first_match_Plus_Digit [OF assms] obtain t where "matches (Plus Digit) (ds @ rest) c = (rest, c) # t"
    by blast
  then show ?thesis by simp
qed

lemma first_match_Cat:
  assumes "matches r1 s c = (s1, c1) # t1" "matches r2 s1 c1 = q # t2"
  shows "\<exists>t. matches (Cat r1 r2) s c = q # t"
  using assms by simp

lemma not_digit_blank_comma: "\<not> is_digit CHR '' ''" "\<not> is_digit CHR '',''"
  by (simp_all add: is_digit_def)

lemma opt_len_cases:
  assumes "opt_len l"
  obtains "l = []" | ds where "l = CHR '','' # ds" "\<forall>y \<in> set ds. is_digit y"
  using assms by (cases l) auto

lemma first_match_opt_len:
  assumes "opt_len l" "matches r (CHR '' '' # rest) c = q # t"
  shows "\<exists>t'. matches (Cat (Opt (Lit '','')) (Cat (Star Digit) r)) (l @ CHR '' '' # rest) c = q # t'"
proof -
  let ?rest = "CHR '' '' # rest"
  have nd: "no_digit_first ?rest"
    by (simp add: no_digit_first_def not_digit_blank_comma)
  from assms(1) obtain ds where l: "l = [] \<and> ds = [] \<or> l = CHR '','' # ds" and ds: "\<forall>x \<in> set ds. is_digit x"
    by (cases rule: opt_len_cases) auto
  from l have "\<exists>t1. matches (Opt (Lit '','')) (l @ ?rest) c = (ds @ ?rest, c) # t1"
    by (auto simp: startsWith_Cons_Cons)
  then obtain t1 where f1: "matches (Opt (Lit '','')) (l @ ?rest) c = (ds @ ?rest, c) # t1" ..
  from first_match_Star_Digit [OF ds nd] obtain t2 where f2: "matches (Star Digit) (ds @ ?rest) c = (?rest, c) # t2"
    by blast
  from first_match_Cat [OF f2 assms(2)] obtain t3 where f3: "matches (Cat (Star Digit) r) (ds @ ?rest) c = q # t3" ..
  from first_match_Cat [OF f1 f3] show ?thesis .
qed

lemma opt_len_no_digit_first:
  assumes "opt_len l"
  shows "no_digit_first (l @ CHR '' '' # rest)"
proof -
  from assms show ?thesis
    by (cases rule: opt_len_cases) (simp_all add: no_digit_first_def not_digit_blank_comma)
qed

lemma first_match_hunk_re:
  assumes "digits oldStart" "opt_len oldLen" "digits newStart" "opt_len newLen"
  shows "\<exists>t. matches hunk_re (header oldStart oldLen newStart newLen rest) c =
           (rest, c(1 \<mapsto> oldStart, 2 \<mapsto> newStart)) # t"
proof -
  let ?c1 = "c(1 \<mapsto> oldStart)"
  let ?c2 = "c(1 \<mapsto> oldStart, 2 \<mapsto> newStart)"
  let ?s6 = "newLen @ CHR '' '' # ''@@'' @ rest"
  let ?s3 = "oldLen @ CHR '' '' # ''+'' @ newStart @ ?s6"
  have f9: "matches (Lit '' @@'') (CHR '' '' # ''@@'' @ rest) ?c2 = [(rest, ?c2)]"
    by (simp add: startsWith_def)
  from first_match_opt_len [OF assms(4) f9] obtain t7 where
    f7: "matches (Cat (Opt (Lit '','')) (Cat (Star Digit) (Lit '' @@''))) ?s6 ?c2 = (rest, ?c2) # t7"
    by blast
  from first_match_Grp_Plus_Digit [OF assms(3) opt_len_no_digit_first [OF assms(4)]] obtain t6 where
    f6: "matches (Grp 2 (Plus Digit)) (newStart @ ?s6) ?c1 = (?s6, ?c2) # t6"
    by blast
  from first_match_Cat [OF f6 f7] obtain t6' where
    g6: "matches (Cat (Grp 2 (Plus Digit)) (Cat (Opt (Lit '','')) (Cat (Star Digit) (Lit '' @@''))))
           (newStart @ ?s6) ?c1 = (rest, ?c2) # t6'"
    by blast
  have f5: "matches (Lit '' +'') (CHR '' '' # ''+'' @ newStart @ ?s6) ?c1 = [(newStart @ ?s6, ?c1)]"
    by (simp add: startsWith_def)
  from first_match_Cat [OF f5 g6] obtain t5 where
    g5: "matches (Cat (Lit '' +'') (Cat (Grp 2 (Plus Digit)) (Cat (Opt (Lit '','')) (Cat (Star Digit)
           (Lit '' @@''))))) (CHR '' '' # ''+'' @ newStart @ ?s6) ?c1 = (rest, ?c2) # t5"
    by blast
  from first_match_opt_len [OF assms(2) g5] obtain t3 where
    f3: "matches (Cat (Opt (Lit '','')) (Cat (Star Digit) (Cat (Lit '' +'') (Cat (Grp 2 (Plus Digit))
          (Cat (Opt (Lit '','')) (Cat (Star Digit) (Lit '' @@''))))))) ?s3 ?c1 = (rest, ?c2) # t3"
    by blast
  from first_match_Grp_Plus_Digit [OF assms(1) opt_len_no_digit_first [OF assms(2)]] obtain t2 where
    f2: "matches (Grp 1 (Plus Digit)) (oldStart @ ?s3) c = (?s3, ?c1) # t2"
    by blast
  from first_match_Cat [OF f2 f3] obtain t2' where
    g2: "matches (Cat (Grp 1 (Plus Digit)) (Cat (Opt (Lit '','')) (Cat (Star Digit) (Cat (Lit '' +'')
           (Cat (Grp 2 (Plus Digit)) (Cat (Opt (Lit '','')) (Cat (Star Digit) (Lit '' @@''))))))))
           (oldStart @ ?s3) c = (rest, ?c2) # t2'"
    by blast
  have f1: "matches (Lit ''@@ -'') (''@@ -'' @ oldStart @ ?s3) c = [(oldStart @ ?s3, c)]"
    by (simp add: startsWith_def)
  from first_match_Cat [OF f1 g2] have
    "\<exists>t. matches hunk_re (''@@ -'' @ oldStart @ ?s3) c = (rest, ?c2) # t"
    unfolding hunk_re_def .
  then show ?thesis by (simp add: header_def)
qed

lemma search_header:
  assumes "digits oldStart" "opt_len oldLen" "digits newStart" "opt_len newLen"
  shows "\<exists>c. search hunk_re (header oldStart oldLen newStart newLen rest) = Some c
           \<and> captured c 2 = newStart"
proof -
  from first_match_hunk_re [OF assms] obtain t where
    "matches hunk_re (header oldStart oldLen newStart newLen rest) Map.empty =
       (rest, [1 \<mapsto> oldStart, 2 \<mapsto> newStart]) # t"
    by blast
  then have "search hunk_re (header oldStart oldLen newStart newLen rest) =
    Some [1 \<mapsto> oldStart, 2 \<mapsto> newStart]"
    by (cases "header oldStart oldLen newStart newLen rest") simp_all
  then show ?thesis by (simp add: captured_def)
qed

lemma startsWith_header: "startsWith (header a b c d e) ''@@''"
  by (simp add: header_def startsWith_def)

lemma step_header_rounded:
  assumes "digits oldStart" "opt_len oldLen" "digits newStart" "opt_len newLen"
  shows "step (cur, chs) (header oldStart oldLen newStart newLen rest) =
           (to_double (radix_val 10 newStart), chs)"
proof -
  from search_header [OF assms] obtain c where
    "search hunk_re (header oldStart oldLen newStart newLen rest) = Some c" "captured c 2 = newStart"
    by blast
  then show ?thesis
    by (simp add: step_header startsWith_header parseInt_digits assms(3))
qed

lemma step_header_line:
  assumes "digits oldStart" "opt_len oldLen" "digits newStart" "opt_len newLen"
    and "radix_val 10 newStart \<le> 2 ^ 53"
  shows "step (cur, chs) (header oldStart oldLen newStart newLen rest) =
           (Num (radix_val 10 newStart), chs)"
proof -
  from assms(3) have "0 \<le> radix_val 10 newStart"
    by (simp add: radix_val_nonneg digits_def)
  with assms(5) have "to_double (radix_val 10 newStart) = Num (radix_val 10 newStart)"
    by (simp add: to_double_exact)
  with step_header_rounded [OF assms(1-4)] show ?thesis by simp
qed

subsection \<open>Invariants of the loop\<close>





lemma shape_foldl_step:
  "map (\<lambda>r. (type r, content r)) (snd (foldl step (cur, chs) ls)) =
     map (\<lambda>r. (type r, content r)) chs @ map (\<lambda>l. (kind l, l)) (filter qualifying ls)"
proof (induction ls arbitrary: cur chs)
  case Nil
  show ?case by simp
next
  case (Cons l ls)
  obtain cur' chs' where st: "step (cur, chs) l = (cur', chs')"
    by (cases "step (cur, chs) l")
  then have "chs' = snd (step (cur, chs) l)" by simp
  then have "map (\<lambda>r. (type r, content r)) chs' =
      map (\<lambda>r. (type r, content r)) chs @ map (\<lambda>l. (kind l, l)) (filter qualifying [l])"
    by (auto simp: snd_step qualifying_def kind_def minus_not_plus)
  with Cons.IH [of cur' chs'] st show ?case by simp
qed

lemma shape_scan:
  "map (\<lambda>r. (type r, content r)) (snd (scan p)) =
     map (\<lambda>l. (kind l, l)) (filter qualifying (split (CHR 0x0A) p))"
  by (simp add: scan_def shape_foldl_step)

lemma content_scan: "map content (snd (scan p)) = filter qualifying (split (CHR 0x0A) p)"
proof -
  have "map content (snd (scan p)) = map snd (map (\<lambda>r. (type r, content r)) (snd (scan p)))"
    by (simp add: comp_def)
  also have "\<dots> = filter qualifying (split (CHR 0x0A) p)"
    unfolding shape_scan by (simp add: comp_def)
  finally show ?thesis .
qed

lemma length_scan: "length (snd (scan p)) = length (filter qualifying (split (CHR 0x0A) p))"
  using arg_cong [OF content_scan, of length] by simp

lemma ordered_stateI:
  "fst st = Num n \<Longrightarrow> n \<le> 2 ^ 53 \<Longrightarrow> map line (snd st) = map Num ns \<Longrightarrow>
   sorted (ns @ [n]) \<Longrightarrow> \<forall>k \<in> set (ns @ [n]). 0 \<le> k \<Longrightarrow> ordered_state st"
  unfolding ordered_state_def by blast

lemma ordered_state_step:
  assumes "ordered_state st" "\<not> startsWith l ''@@''"
  shows "ordered_state (step st l)"
proof -
  obtain cur chs where st: "st = (cur, chs)" by (cases st)
  with assms(1) obtain n ns where cur: "cur = Num n" and b: "n \<le> 2 ^ 53"
    and chs: "map line chs = map Num ns"
    and s: "sorted (ns @ [n])" and p: "\<forall>k \<in> set (ns @ [n]). 0 \<le> k"
    unfolding ordered_state_def by auto
  from p have "0 \<le> n" by simp
  from incr_bounded [OF this b] obtain k where k: "to_double (n + 1) = Num k" "n \<le> k" "k \<le> 2 ^ 53"
    by auto
  from s k(2) have s1: "sorted ((ns @ [n]) @ [n])" and s2: "sorted ((ns @ [n]) @ [k])"
    and s3: "sorted (ns @ [k])"
    by (auto simp: sorted_append)
  from p k(2) have p1: "\<forall>i \<in> set ((ns @ [n]) @ [n]). 0 \<le> i"
    and p2: "\<forall>i \<in> set ((ns @ [n]) @ [k]). 0 \<le> i"
    and p3: "\<forall>i \<in> set (ns @ [k]). 0 \<le> i"
    by auto
  consider (a) "startsWith l ''+''" "\<not> startsWith l ''+++''"
    | (d) "startsWith l ''-''" "\<not> startsWith l ''---''"
    | (o) "\<not> qualifying l"
    unfolding qualifying_def by blast
  then show ?thesis
  proof cases
    case a
    have "ordered_state (Num k, chs @ [\<lparr>type = addition, line = Num n, content = l\<rparr>])"
      by (rule ordered_stateI [OF _ k(3) _ s2 p2]) (simp_all add: chs)
    then show ?thesis using a by (simp add: st cur step_addition k(1))
  next
    case d
    have "ordered_state (Num n, chs @ [\<lparr>type = deletion, line = Num n, content = l\<rparr>])"
      by (rule ordered_stateI [OF _ b _ s1 p1]) (simp_all add: chs)
    then show ?thesis using d by (simp add: st cur step_deletion)
  next
    case o
    have "ordered_state (Num n, chs)"
      by (rule ordered_stateI [OF _ b _ s p]) (simp_all add: chs)
    moreover have "ordered_state (Num k, chs)"
      by (rule ordered_stateI [OF _ k(3) _ s3 p3]) (simp_all add: chs)
    ultimately show ?thesis using o assms(2) by (simp add: st cur step_other k(1))
  qed
qed

lemma ordered_state_foldl:
  "ordered_state st \<Longrightarrow> \<forall>l \<in> set ls. \<not> startsWith l ''@@'' \<Longrightarrow> ordered_state (foldl step st ls)"
  by (induction ls arbitrary: st) (simp_all add: ordered_state_step)

lemma ordered_state_scan:
  assumes "\<forall>l \<in> set (split (CHR 0x0A) p). \<not> startsWith l ''@@''"
  shows "ordered_state (scan p)"
  unfolding scan_def
proof (rule ordered_state_foldl [OF _ assms])
  show "ordered_state (Num 0, [])"
    by (rule ordered_stateI [of _ 0 "[]"]) simp_all
qed

lemma ordered_take:
  assumes "ordered_state st"
  shows "\<exists>ns. map line (take k (snd st)) = map Num ns \<and> sorted ns \<and> (\<forall>i \<in> set ns. 0 \<le> i)"
proof -
  from assms obtain n ns where chs: "map line (snd st) = map Num ns"
    and s: "sorted (ns @ [n])" and p: "\<forall>k \<in> set (ns @ [n]). 0 \<le> k"
    unfolding ordered_state_def by auto
  from chs have "map line (take k (snd st)) = map Num (take k ns)"
    by (simp add: take_map [symmetric])
  moreover from s have "sorted (take k ns)"
    by (simp add: sorted_append sorted_wrt_take)
  moreover from p have "\<forall>i \<in> set (take k ns). 0 \<le> i"
    by (auto dest: in_set_takeD)
  ultimately show ?thesis by blast
qed

subsection \<open>Runs and the functions\<close>

lemma get_group_Inr: "match \<noteq> None \<Longrightarrow> get_group match i = Inr (captured (the match) i)"
  by (cases match) simp_all







section \<open>Properties\<close>

subsection \<open>The worked example\<close>

text \<open>
  C2: on the patch \<^verbatim>\<open>@@ -1,3 +1,3 @@\<close>, \<^verbatim>\<open> context\<close>, \<^verbatim>\<open>-old line\<close>, \<^verbatim>\<open>+new line\<close>,
  each line ended by a line feed, \<open>parsePatch\<close> returns exactly two records, in this
  order: the deletion of \<^verbatim>\<open>-old line\<close> at line 2 and the addition of \<^verbatim>\<open>+new line\<close>
  at line 2.
\<close>

theorem parsePatch_example:
  "parsePatch ''@@ -1,3 +1,3 @@\<newline> context\<newline>-old line\<newline>+new line\<newline>'' =
     [\<lparr>type = deletion, line = Num 2, content = ''-old line''\<rparr>,
      \<lparr>type = addition, line = Num 2, content = ''+new line''\<rparr>]"
  by code_simp

subsection \<open>The loop body and the cap\<close>

lemma backslash_not_at: "startsWith l [CHR 0x5C] \<Longrightarrow> \<not> startsWith l ''@@''"
  by (auto simp: startsWith_Cons)

lemma backslash_not_qualifying: "startsWith l [CHR 0x5C] \<Longrightarrow> \<not> qualifying l"
  by (auto simp: startsWith_Cons qualifying_def)

text \<open>
  C1, as the code has it: \<open>parsePatch\<close> runs the loop body over the lines in order, from
  the counter 0 and no records, and keeps the first ten records. A line starting with
  \<open>+\<close> but not \<open>+++\<close> appends an addition record with the current counter and the
  line as content, then applies \<open>++\<close> to the counter. A line starting with \<open>-\<close> but not
  \<open>---\<close> appends a deletion record with the current counter and leaves the counter.
  Any other line that starts neither with a backslash nor with \<open>@@\<close> applies \<open>++\<close> to
  the counter and appends nothing. A line starting with a backslash changes nothing.
  On a counter from 0 to below \<open>2 ^ 53\<close>, \<open>++\<close> adds exactly 1.
\<close>

theorem parsePatch_cursor:
  "parsePatch patch = take 10 (snd (foldl step (Num 0, []) (split (CHR 0x0A) patch))) \<and>
   (startsWith l1 ''+'' \<and> \<not> startsWith l1 ''+++'' \<longrightarrow>
      step (cur, chs) l1 =
        (incr cur, chs @ [\<lparr>type = addition, line = cur, content = l1\<rparr>])) \<and>
   (startsWith l2 ''-'' \<and> \<not> startsWith l2 ''---'' \<longrightarrow>
      step (cur, chs) l2 =
        (cur, chs @ [\<lparr>type = deletion, line = cur, content = l2\<rparr>])) \<and>
   (\<not> (startsWith l3 ''+'' \<and> \<not> startsWith l3 ''+++'') \<and>
    \<not> (startsWith l3 ''-'' \<and> \<not> startsWith l3 ''---'') \<and>
    \<not> startsWith l3 [CHR 0x5C] \<and> \<not> startsWith l3 ''@@'' \<longrightarrow>
      step (cur, chs) l3 = (incr cur, chs)) \<and>
   (startsWith l4 [CHR 0x5C] \<longrightarrow> step (cur, chs) l4 = (cur, chs)) \<and>
   (0 \<le> n \<and> n < 2 ^ 53 \<longrightarrow> incr (Num n) = Num (n + 1))"
proof -
  have "parsePatch patch = take 10 (snd (foldl step (Num 0, []) (split (CHR 0x0A) patch)))"
    by (simp add: parsePatch_def scan_def)
  moreover have "step (cur, chs) l3 = (incr cur, chs)"
    if "\<not> (startsWith l3 ''+'' \<and> \<not> startsWith l3 ''+++'')"
       "\<not> (startsWith l3 ''-'' \<and> \<not> startsWith l3 ''---'')"
       "\<not> startsWith l3 [CHR 0x5C]" "\<not> startsWith l3 ''@@''"
    using that by (simp add: step_other qualifying_def)
  moreover have "step (cur, chs) l4 = (cur, chs)" if "startsWith l4 [CHR 0x5C]"
    using that by (simp add: step_other backslash_not_at backslash_not_qualifying)
  ultimately show ?thesis
    using step_addition [of l1 cur chs] step_deletion [of l2 cur chs] incr_exact [of n]
    by blast
qed

text \<open>The four cases of C1 at the counter 3, on one line each.\<close>

theorem parsePatch_cursor_witness:
  "startsWith ''+a'' ''+'' \<and> \<not> startsWith ''+a'' ''+++'' \<and>
   step (Num 3, []) ''+a'' = (Num 4, [\<lparr>type = addition, line = Num 3, content = ''+a''\<rparr>]) \<and>
   startsWith ''-b'' ''-'' \<and> \<not> startsWith ''-b'' ''---'' \<and>
   step (Num 3, []) ''-b'' = (Num 3, [\<lparr>type = deletion, line = Num 3, content = ''-b''\<rparr>]) \<and>
   \<not> startsWith ''+++ c'' [CHR 0x5C] \<and> \<not> startsWith ''+++ c'' ''@@'' \<and>
   step (Num 3, []) ''+++ c'' = (Num 4, []) \<and>
   startsWith [CHR 0x5C, CHR '' '', CHR ''N''] [CHR 0x5C] \<and>
   step (Num 3, []) [CHR 0x5C, CHR '' '', CHR ''N''] = (Num 3, []) \<and>
   (0::int) \<le> 3 \<and> (3::int) < 2 ^ 53 \<and> incr (Num 3) = Num 4"
  using parsePatch_cursor [of "[]" "''+a''" "Num 3" "[]" "''-b''" "''+++ c''"
      "[CHR 0x5C, CHR '' '', CHR ''N'']" 3]
  by (simp add: startsWith_def to_double_exact)

text \<open>
  C1 as stated fails twice. The line \<^verbatim>\<open>@@ junk\<close> starts neither with \<open>+\<close>, \<open>-\<close> nor a
  backslash and the header pattern does not match it, yet the counter stays at 0, so
  the addition that follows is recorded at line 0. And at the counter
  \<open>2 ^ 53 = 9007199254740992\<close>, which one header sets, \<open>++\<close> rounds the sum back to
  \<open>2 ^ 53\<close>: two additions in a row are both recorded at that line.
\<close>

theorem malformed_header_cursor_counterexample:
  "\<not> startsWith ''@@ junk'' ''+'' \<and> \<not> startsWith ''@@ junk'' ''-'' \<and>
   \<not> startsWith ''@@ junk'' [CHR 0x5C] \<and> search hunk_re ''@@ junk'' = None \<and>
   step (Num 0, []) ''@@ junk'' = (Num 0, []) \<and>
   step (Num 0, []) ''@@ junk'' \<noteq> (incr (Num 0), []) \<and>
   parsePatch ''@@ junk\<newline>+a'' = [\<lparr>type = addition, line = Num 0, content = ''+a''\<rparr>] \<and>
   step (Num 9007199254740992, []) ''+a'' =
     (Num 9007199254740992,
      [\<lparr>type = addition, line = Num 9007199254740992, content = ''+a''\<rparr>]) \<and>
   parsePatch ''@@ -1 +9007199254740992 @@\<newline>+a\<newline>+b'' =
     [\<lparr>type = addition, line = Num 9007199254740992, content = ''+a''\<rparr>,
      \<lparr>type = addition, line = Num 9007199254740992, content = ''+b''\<rparr>]"
  by code_simp

text \<open>
  C5, as the code has it: a line that starts with \<open>@@\<close> and that the header pattern
  matches nowhere appends no record and leaves the counter unchanged.
\<close>

theorem malformed_header_noop:
  "startsWith l ''@@'' \<Longrightarrow> search hunk_re l = None \<Longrightarrow> step (cur, chs) l = (cur, chs)"
  by (simp add: step_header)

text \<open>A header without its closing \<open>@@\<close>, at the counter 4.\<close>

theorem malformed_header_noop_witness:
  "startsWith ''@@ -1,3 +1,3'' ''@@'' \<and> search hunk_re ''@@ -1,3 +1,3'' = None \<and>
   step (Num 4, []) ''@@ -1,3 +1,3'' = (Num 4, [])"
proof -
  have h1: "startsWith ''@@ -1,3 +1,3'' ''@@''" by code_simp
  have h2: "search hunk_re ''@@ -1,3 +1,3'' = None" by code_simp
  from h1 h2 malformed_header_noop [OF h1 h2, of "Num 4" "[]"] show ?thesis by blast
qed

text \<open>
  C5 as stated fails: on \<^verbatim>\<open>@@ -7,2 +9,2\<close> the counter 4 stays 4 and is not incremented;
  as the first line of a patch it leaves the deletion that follows at line 0.
\<close>

theorem malformed_header_context_counterexample:
  "startsWith ''@@ -7,2 +9,2'' ''@@'' \<and> search hunk_re ''@@ -7,2 +9,2'' = None \<and>
   fst (step (Num 4, []) ''@@ -7,2 +9,2'') = Num 4 \<and>
   fst (step (Num 4, []) ''@@ -7,2 +9,2'') \<noteq> incr (Num 4) \<and>
   parsePatch ''@@ -7,2 +9,2\<newline>-a'' = [\<lparr>type = deletion, line = Num 0, content = ''-a''\<rparr>]"
  by code_simp

text \<open>
  C3: \<open>parsePatch\<close> never returns more than ten records. The loop appends one record
  for each recorded line, so when more than ten lines are recorded the result has
  exactly ten records: the first ten that the loop appended, whose contents are the
  first ten recorded lines in their order.
\<close>

theorem parsePatch_cap:
  "length (parsePatch p) \<le> 10 \<and>
   length (snd (scan p)) = length (filter qualifying (split (CHR 0x0A) p)) \<and>
   (10 < length (filter qualifying (split (CHR 0x0A) p)) \<longrightarrow>
      length (parsePatch p) = 10 \<and>
      parsePatch p = take 10 (snd (scan p)) \<and>
      map content (parsePatch p) = take 10 (filter qualifying (split (CHR 0x0A) p)))"
proof -
  have "map content (take 10 (snd (scan p))) = take 10 (map content (snd (scan p)))"
    by (rule take_map [symmetric])
  then have "map content (parsePatch p) = take 10 (filter qualifying (split (CHR 0x0A) p))"
    by (simp only: parsePatch_def content_scan)
  then show ?thesis
    by (simp add: parsePatch_def length_scan)
qed

text \<open>Twelve recorded lines: the result keeps the first ten.\<close>

theorem parsePatch_cap_witness:
  "10 < length (filter qualifying
          (split (CHR 0x0A) ''+a\<newline>-b\<newline>+c\<newline>-d\<newline>+e\<newline>-f\<newline>+g\<newline>-h\<newline>+i\<newline>-j\<newline>+k\<newline>-l'')) \<and>
   length (parsePatch ''+a\<newline>-b\<newline>+c\<newline>-d\<newline>+e\<newline>-f\<newline>+g\<newline>-h\<newline>+i\<newline>-j\<newline>+k\<newline>-l'') = 10 \<and>
   map content (parsePatch ''+a\<newline>-b\<newline>+c\<newline>-d\<newline>+e\<newline>-f\<newline>+g\<newline>-h\<newline>+i\<newline>-j\<newline>+k\<newline>-l'') =
     [''+a'', ''-b'', ''+c'', ''-d'', ''+e'', ''-f'', ''+g'', ''-h'', ''+i'', ''-j'']"
proof -
  let ?p = "''+a\<newline>-b\<newline>+c\<newline>-d\<newline>+e\<newline>-f\<newline>+g\<newline>-h\<newline>+i\<newline>-j\<newline>+k\<newline>-l''"
  have q: "filter qualifying (split (CHR 0x0A) ?p) =
    [''+a'', ''-b'', ''+c'', ''-d'', ''+e'', ''-f'', ''+g'', ''-h'', ''+i'', ''-j'', ''+k'', ''-l'']"
    by code_simp
  have h: "10 < length (filter qualifying (split (CHR 0x0A) ?p))"
    unfolding q by simp
  from parsePatch_cap [of ?p] h
  have "length (parsePatch ?p) = 10"
    and "map content (parsePatch ?p) = take 10 (filter qualifying (split (CHR 0x0A) ?p))"
    by blast+
  with h show ?thesis unfolding q by simp
qed

text \<open>
  C4, as the code has it: a line of the form
  \<^verbatim>\<open>@@ -<oldStart>[,<oldLen>] +<newStart>[,<newLen>] @@\<close> whose \<open>newStart\<close> is at most
  \<open>2 ^ 53\<close> sets the counter to the decimal value of \<open>newStart\<close> and appends no record,
  whatever the counter was; so does \<^verbatim>\<open>@@ -5 +5 @@\<close>, which has no lengths, with 5;
  and such a header anywhere among the lines restarts the loop from its \<open>newStart\<close>
  with the records made so far.
\<close>

theorem hunk_header_resets:
  assumes "digits oldStart" "opt_len oldLen" "digits newStart" "opt_len newLen"
    and "radix_val 10 newStart \<le> 2 ^ 53"
  shows "step (cur, chs) (header oldStart oldLen newStart newLen rest) =
           (Num (radix_val 10 newStart), chs) \<and>
         step (cur, chs) ''@@ -5 +5 @@'' = (Num 5, chs) \<and>
         foldl step st (before @ header oldStart oldLen newStart newLen rest # after) =
           foldl step (Num (radix_val 10 newStart), snd (foldl step st before)) after"
proof -
  have d5: "digits ''5''" and o: "opt_len []"
    by (simp_all add: digits_def is_digit_def)
  have r5: "radix_val 10 ''5'' = 5"
    by (simp add: radix_val_def digit_val_def is_digit_def)
  then have b5: "radix_val 10 ''5'' \<le> 2 ^ 53"
    by simp
  have "step (cur, chs) (header ''5'' [] ''5'' [] []) = (Num (radix_val 10 ''5''), chs)"
    by (rule step_header_line [OF d5 o d5 o b5])
  moreover have "header ''5'' [] ''5'' [] [] = ''@@ -5 +5 @@''"
    by (simp add: header_def)
  ultimately have five: "step (cur, chs) ''@@ -5 +5 @@'' = (Num 5, chs)"
    using r5 by simp
  obtain cur' chs' where b: "foldl step st before = (cur', chs')"
    by (cases "foldl step st before")
  have "foldl step st (before @ header oldStart oldLen newStart newLen rest # after) =
      foldl step (step (cur', chs') (header oldStart oldLen newStart newLen rest)) after"
    by (simp add: b)
  with step_header_line [OF assms] b five show ?thesis by simp
qed

text \<open>A header with one length and a trailing section name, as the third line.\<close>

theorem hunk_header_resets_witness:
  "digits ''12'' \<and> opt_len '',3'' \<and> digits ''40'' \<and> opt_len [] \<and>
   radix_val 10 ''40'' \<le> 2 ^ 53 \<and>
   header ''12'' '',3'' ''40'' [] '' f()'' = ''@@ -12,3 +40 @@ f()'' \<and>
   step (Num 7, []) ''@@ -12,3 +40 @@ f()'' = (Num 40, []) \<and>
   foldl step (Num 0, []) [''@@ -1 +1 @@'', ''+a'', ''@@ -12,3 +40 @@ f()'', ''+b''] =
     foldl step (Num 40, snd (foldl step (Num 0, []) [''@@ -1 +1 @@'', ''+a''])) [''+b''] \<and>
   parsePatch ''@@ -1 +1 @@\<newline>+a\<newline>@@ -12,3 +40 @@ f()\<newline>+b'' =
     [\<lparr>type = addition, line = Num 1, content = ''+a''\<rparr>,
      \<lparr>type = addition, line = Num 40, content = ''+b''\<rparr>]"
proof -
  have p: "parsePatch ''@@ -1 +1 @@\<newline>+a\<newline>@@ -12,3 +40 @@ f()\<newline>+b'' =
     [\<lparr>type = addition, line = Num 1, content = ''+a''\<rparr>,
      \<lparr>type = addition, line = Num 40, content = ''+b''\<rparr>]"
    by code_simp
  have h: "digits ''12''" "opt_len '',3''" "digits ''40''" "opt_len []"
    by (simp_all add: digits_def is_digit_def)
  have e: "header ''12'' '',3'' ''40'' [] '' f()'' = ''@@ -12,3 +40 @@ f()''"
    by (simp add: header_def)
  have r: "radix_val 10 ''40'' = 40"
    by (simp add: radix_val_def digit_val_def is_digit_def)
  then have b: "radix_val 10 ''40'' \<le> 2 ^ 53"
    by simp
  from hunk_header_resets [OF h b, of "Num 7" "[]" "'' f()''" "(Num 0, [])" "[''@@ -1 +1 @@'', ''+a'']" "[''+b'']"]
  show ?thesis using h p unfolding e r by simp
qed

text \<open>
  C4 as stated fails: \<^verbatim>\<open>@@ -1 +9007199254740993 @@\<close> has the header form and its
  \<open>newStart\<close> is \<open>2 ^ 53 + 1\<close>, but \<open>parseInt\<close> returns the nearest double and the
  counter becomes \<open>9007199254740992\<close>, where the next addition is recorded.
\<close>

theorem hunk_header_rounds_counterexample:
  "digits ''1'' \<and> opt_len [] \<and> digits ''9007199254740993'' \<and>
   header ''1'' [] ''9007199254740993'' [] [] = ''@@ -1 +9007199254740993 @@'' \<and>
   radix_val 10 ''9007199254740993'' = 9007199254740993 \<and>
   step (Num 0, []) ''@@ -1 +9007199254740993 @@'' = (Num 9007199254740992, []) \<and>
   parsePatch ''@@ -1 +9007199254740993 @@\<newline>+a'' =
     [\<lparr>type = addition, line = Num 9007199254740992, content = ''+a''\<rparr>]"
  by code_simp

lemma in_parsePatch:
  assumes "r \<in> set (parsePatch p)"
  shows "content r \<in> set (split (CHR 0x0A) p) \<and> qualifying (content r) \<and>
         type r = kind (content r)"
proof -
  from assms have "r \<in> set (snd (scan p))"
    unfolding parsePatch_def by (rule in_set_takeD)
  then have "(type r, content r) \<in> set (map (\<lambda>r. (type r, content r)) (snd (scan p)))"
    by force
  then have "(type r, content r) \<in> set (map (\<lambda>l. (kind l, l)) (filter qualifying (split (CHR 0x0A) p)))"
    by (simp only: shape_scan)
  then show ?thesis by auto
qed

lemma file_header_not_qualifying:
  "startsWith l ''+++'' \<or> startsWith l ''---'' \<Longrightarrow> \<not> qualifying l"
  by (auto simp: qualifying_def startsWith_Cons)

text \<open>
  C6: no record of the result has a content that starts with \<open>+++\<close> or \<open>---\<close>, and the
  loop body appends nothing on a line that starts with \<open>+++\<close> or \<open>---\<close>.
\<close>

theorem file_header_no_record:
  "(r \<in> set (parsePatch p) \<longrightarrow>
      \<not> startsWith (content r) ''+++'' \<and> \<not> startsWith (content r) ''---'') \<and>
   (startsWith l ''+++'' \<or> startsWith l ''---'' \<longrightarrow> snd (step (cur, chs) l) = chs)"
proof -
  have "\<not> startsWith (content r) ''+++'' \<and> \<not> startsWith (content r) ''---''"
    if "r \<in> set (parsePatch p)"
    using in_parsePatch [OF that] file_header_not_qualifying [of "content r"] by blast
  moreover have "snd (step (cur, chs) l) = chs"
    if "startsWith l ''+++'' \<or> startsWith l ''---''"
    using file_header_not_qualifying [OF that] by (simp add: snd_step qualifying_def)
  ultimately show ?thesis by blast
qed

text \<open>The two file headers and one addition.\<close>

theorem file_header_no_record_witness:
  "parsePatch ''--- a/file.txt\<newline>+++ b/file.txt\<newline>+x'' =
     [\<lparr>type = addition, line = Num 2, content = ''+x''\<rparr>] \<and>
   \<not> startsWith ''+x'' ''+++'' \<and> \<not> startsWith ''+x'' ''---'' \<and>
   startsWith ''+++ b/file.txt'' ''+++'' \<and>
   snd (step (Num 1, []) ''+++ b/file.txt'') = []"
proof -
  have e: "parsePatch ''--- a/file.txt\<newline>+++ b/file.txt\<newline>+x'' =
     [\<lparr>type = addition, line = Num 2, content = ''+x''\<rparr>]"
    by code_simp
  have h: "startsWith ''+++ b/file.txt'' ''+++''"
    by (simp add: startsWith_def)
  from file_header_no_record [of "\<lparr>type = addition, line = Num 2, content = ''+x''\<rparr>"
      "''--- a/file.txt\<newline>+++ b/file.txt\<newline>+x''" "''+++ b/file.txt''" "Num 1" "[]"] e h
  show ?thesis by simp
qed

text \<open>
  C7: the empty patch has no records, and neither has a patch none of whose lines
  starts with \<open>+\<close>, \<open>-\<close> or \<open>@@\<close>.
\<close>

theorem context_only_empty:
  "parsePatch [] = [] \<and>
   ((\<forall>l \<in> set (split (CHR 0x0A) p).
       \<not> startsWith l ''+'' \<and> \<not> startsWith l ''-'' \<and> \<not> startsWith l ''@@'') \<longrightarrow>
    parsePatch p = [])"
proof -
  have "parsePatch p = []"
    if "\<forall>l \<in> set (split (CHR 0x0A) p). \<not> startsWith l ''+'' \<and> \<not> startsWith l ''-'' \<and> \<not> startsWith l ''@@''"
  proof -
    from that have "filter qualifying (split (CHR 0x0A) p) = []"
      by (auto simp: filter_empty_conv qualifying_def)
    then have "map content (snd (scan p)) = []"
      by (simp only: content_scan)
    then show ?thesis by (simp add: parsePatch_def)
  qed
  moreover have "parsePatch [] = []"
    by (simp add: parsePatch_def scan_def step_def startsWith_def)
  ultimately show ?thesis by blast
qed

text \<open>Three context lines and an empty line.\<close>

theorem context_only_empty_witness:
  "list_all (\<lambda>l. \<not> startsWith l ''+'' \<and> \<not> startsWith l ''-'' \<and> \<not> startsWith l ''@@'')
     (split (CHR 0x0A) '' a\<newline> b\<newline>\<newline> c'') \<and>
   parsePatch '' a\<newline> b\<newline>\<newline> c'' = []"
proof -
  have s: "split (CHR 0x0A) '' a\<newline> b\<newline>\<newline> c'' = ['' a'', '' b'', [], '' c'']"
    by code_simp
  have h: "\<forall>l \<in> set (split (CHR 0x0A) '' a\<newline> b\<newline>\<newline> c'').
      \<not> startsWith l ''+'' \<and> \<not> startsWith l ''-'' \<and> \<not> startsWith l ''@@''"
    unfolding s by (simp add: startsWith_def)
  from context_only_empty [of "'' a\<newline> b\<newline>\<newline> c''"] h
  have "parsePatch '' a\<newline> b\<newline>\<newline> c'' = []" by blast
  with h show ?thesis by (simp add: list_all_iff)
qed



text \<open>
  C9: the content of every record of the result is one of the lines of the patch; it
  starts with \<open>+\<close> when the record is an addition and with \<open>-\<close> when it is a
  deletion, and it is not empty.
\<close>

theorem record_content:
  "r \<in> set (parsePatch p) \<Longrightarrow>
   content r \<in> set (split (CHR 0x0A) p) \<and>
   (type r = addition \<longrightarrow> startsWith (content r) ''+'') \<and>
   (type r = deletion \<longrightarrow> startsWith (content r) ''-'') \<and>
   content r \<noteq> []"
proof -
  assume "r \<in> set (parsePatch p)"
  from in_parsePatch [OF this] have l: "content r \<in> set (split (CHR 0x0A) p)"
    and q: "qualifying (content r)" and k: "type r = kind (content r)"
    by simp_all
  from q have "content r \<noteq> []"
    by (auto simp: qualifying_def startsWith_def)
  moreover from q k have "type r = addition \<longrightarrow> startsWith (content r) ''+''"
    by (auto simp: kind_def split: if_splits)
  moreover from q k have "type r = deletion \<longrightarrow> startsWith (content r) ''-''"
    by (auto simp: kind_def qualifying_def split: if_splits)
  ultimately show ?thesis using l by blast
qed

text \<open>Both records of a two-line hunk.\<close>

theorem record_content_witness:
  "parsePatch ''@@ -1 +1 @@\<newline>-old\<newline>+new'' =
     [\<lparr>type = deletion, line = Num 1, content = ''-old''\<rparr>,
      \<lparr>type = addition, line = Num 1, content = ''+new''\<rparr>] \<and>
   ''-old'' \<in> set (split (CHR 0x0A) ''@@ -1 +1 @@\<newline>-old\<newline>+new'') \<and>
   startsWith ''-old'' ''-'' \<and>
   ''+new'' \<in> set (split (CHR 0x0A) ''@@ -1 +1 @@\<newline>-old\<newline>+new'') \<and>
   startsWith ''+new'' ''+''"
proof -
  let ?p = "''@@ -1 +1 @@\<newline>-old\<newline>+new''"
  have e: "parsePatch ?p =
     [\<lparr>type = deletion, line = Num 1, content = ''-old''\<rparr>,
      \<lparr>type = addition, line = Num 1, content = ''+new''\<rparr>]"
    by code_simp
  have "\<lparr>type = deletion, line = Num 1, content = ''-old''\<rparr> \<in> set (parsePatch ?p)"
    unfolding e by simp
  from record_content [OF this]
  have d: "''-old'' \<in> set (split (CHR 0x0A) ?p) \<and> startsWith ''-old'' ''-''" by simp
  have "\<lparr>type = addition, line = Num 1, content = ''+new''\<rparr> \<in> set (parsePatch ?p)"
    unfolding e by simp
  from record_content [OF this]
  have a: "''+new'' \<in> set (split (CHR 0x0A) ?p) \<and> startsWith ''+new'' ''+''" by simp
  from e d a show ?thesis by blast
qed

text \<open>
  C10: when no line of the patch starts with \<open>@@\<close>, the line numbers of the result
  are integers, non-decreasing in the order of the result, and none is negative.
\<close>

theorem lines_nondecreasing:
  assumes "\<forall>l \<in> set (split (CHR 0x0A) p). \<not> startsWith l ''@@''"
  shows "\<exists>ns. map line (parsePatch p) = map Num ns \<and> sorted ns \<and> (\<forall>k \<in> set ns. 0 \<le> k)"
  unfolding parsePatch_def by (rule ordered_take [OF ordered_state_scan [OF assms]])

text \<open>An addition, a context line, a deletion and an addition: lines 0, 2, 2.\<close>

theorem lines_nondecreasing_witness:
  "list_all (\<lambda>l. \<not> startsWith l ''@@'') (split (CHR 0x0A) ''+a\<newline> b\<newline>-c\<newline>+d'') \<and>
   map line (parsePatch ''+a\<newline> b\<newline>-c\<newline>+d'') = map Num [0, 2, 2] \<and>
   (\<exists>ns. map line (parsePatch ''+a\<newline> b\<newline>-c\<newline>+d'') = map Num ns \<and> sorted ns \<and>
         list_all (\<lambda>k. 0 \<le> k) ns)"
proof -
  let ?p = "''+a\<newline> b\<newline>-c\<newline>+d''"
  have s: "split (CHR 0x0A) ?p = [''+a'', '' b'', ''-c'', ''+d'']"
    by code_simp
  have h: "\<forall>l \<in> set (split (CHR 0x0A) ?p). \<not> startsWith l ''@@''"
    unfolding s by (simp add: startsWith_def)
  have e: "map line (parsePatch ?p) = map Num [0, 2, 2]"
    by code_simp
  from lines_nondecreasing [OF h] h e show ?thesis
    by (auto simp: list_all_iff)
qed

end
